theory Spec2Isabelle
  imports Complex_Main
begin

section \<open>Values read from and written to the logs\<close>

text \<open>
  The logger (\<^verbatim>\<open>src/mcp_logger.py\<close>) handles the Python values that \<^verbatim>\<open>json.loads\<close>
  returns and \<^verbatim>\<open>json.dumps\<close> accepts. A dict is an association list in insertion
  order; \<open>dict_lookup\<close> reads the first binding of a key (the dicts of a parsed line
  have one binding per key). A finite float is the rational number it denotes; the
  non-standard tokens NaN and Infinity are outside this value type. A Python \<^verbatim>\<open>str\<close>
  is a \<open>string\<close>, one element per character.
\<close>

datatype json =
    JNull
  | JBool bool
  | JInt int
  | JFloat rat
  | JStr string
  | JArr "json list"
  | JObj "(string \<times> json) list"

text \<open>The exceptions of the model. \<open>OtherException\<close> stands for whatever reading a line or
  \<^verbatim>\<open>json.loads\<close> raises apart from \<^verbatim>\<open>JSONDecodeError\<close>.\<close>

datatype error = AttributeError | TypeError | OtherException

text \<open>One step of the loop \<^verbatim>\<open>for line in f\<close>, as the readers see it: \<^verbatim>\<open>line.strip()\<close> is
  empty (\<open>Blank\<close>); \<^verbatim>\<open>json.loads(line)\<close> raises \<^verbatim>\<open>JSONDecodeError\<close> (\<open>Malformed\<close>); it returns
  a value (\<open>Parsed\<close>); or an exception that is not a \<^verbatim>\<open>JSONDecodeError\<close> is raised
  (\<open>Raises\<close>): \<^verbatim>\<open>json.loads\<close> raises \<^verbatim>\<open>RecursionError\<close> on a line nested too deeply (a hundred
  thousand opening brackets) and \<^verbatim>\<open>ValueError\<close> on an integer literal of more than 4300
  digits, and reading the file raises \<^verbatim>\<open>UnicodeDecodeError\<close> on bytes that are not UTF-8.
  The handler inside the loop catches \<^verbatim>\<open>JSONDecodeError\<close> only.\<close>

datatype line = Blank | Malformed | Raises | Parsed json

fun dict_lookup :: "('k \<times> 'v) list \<Rightarrow> 'k \<Rightarrow> 'v option" where
  "dict_lookup [] k = None"
| "dict_lookup ((k', v) # kvs) k = (if k' = k then Some v else dict_lookup kvs k)"

text \<open>\<^verbatim>\<open>d[k] = v\<close>: an existing key keeps its place and takes the new value, a new key
  goes to the end.\<close>

fun dict_set :: "('k \<times> 'v) list \<Rightarrow> 'k \<Rightarrow> 'v \<Rightarrow> ('k \<times> 'v) list" where
  "dict_set [] k v = [(k, v)]"
| "dict_set ((k', v') # kvs) k v =
     (if k' = k then (k', v) # kvs else (k', v') # dict_set kvs k v)"

text \<open>\<^verbatim>\<open>entry.get(key)\<close>: \<^verbatim>\<open>None\<close> for a missing key; a value that is not a dict has no
  attribute \<^verbatim>\<open>get\<close>.\<close>

fun entry_get :: "json \<Rightarrow> string \<Rightarrow> error + json" where
  "entry_get (JObj kvs) k = Inr (case dict_lookup kvs k of None \<Rightarrow> JNull | Some v \<Rightarrow> v)"
| "entry_get _ k = Inl AttributeError"

text \<open>Truth value of a Python value in a condition.\<close>

fun truthy :: "json \<Rightarrow> bool" where
  "truthy JNull = False"
| "truthy (JBool b) = b"
| "truthy (JInt i) = (i \<noteq> 0)"
| "truthy (JFloat q) = (q \<noteq> 0)"
| "truthy (JStr s) = (s \<noteq> [])"
| "truthy (JArr xs) = (xs \<noteq> [])"
| "truthy (JObj kvs) = (kvs \<noteq> [])"

section \<open>Writing records\<close>

text \<open>The state the writer acts on: the lines of the file at \<^verbatim>\<open>filepath\<close> and what went to
  \<^verbatim>\<open>sys.stderr\<close> (one element per message; the text of the exception is left out).\<close>

record log_state =
  file_lines :: "string list"
  diagnostics :: "string list"

text \<open>\<^verbatim>\<open>entry["logged_at"] = datetime.now().isoformat()\<close>, with the clock's reading \<open>now\<close>.\<close>

definition stamp :: "string \<Rightarrow> (string \<times> json) list \<Rightarrow> (string \<times> json) list" where
  "stamp now entry = dict_set entry ''logged_at'' (JStr now)"

text \<open>\<^verbatim>\<open>_write_log\<close>. \<open>dumps\<close> is \<^verbatim>\<open>json.dumps\<close> (\<open>None\<close> when it raises) and \<open>can_append\<close>
  says whether opening the file for appending and writing to it succeed. Every
  exception of the \<^verbatim>\<open>try\<close> block is caught and reported on \<^verbatim>\<open>sys.stderr\<close>.\<close>

definition write_log ::
  "(json \<Rightarrow> string option) \<Rightarrow> bool \<Rightarrow> string \<Rightarrow> log_state \<Rightarrow> (string \<times> json) list \<Rightarrow> log_state" where
  "write_log dumps can_append now st entry =
     (if can_append
      then (case dumps (JObj (stamp now entry)) of
              Some written \<Rightarrow> st\<lparr>file_lines := file_lines st @ [written]\<rparr>
            | None \<Rightarrow> st\<lparr>diagnostics := diagnostics st @ [''[mcp_logger] Failed to write log'']\<rparr>)
      else st\<lparr>diagnostics := diagnostics st @ [''[mcp_logger] Failed to write log'']\<rparr>)"

definition opt_str :: "string option \<Rightarrow> json" where
  "opt_str x = (case x of None \<Rightarrow> JNull | Some s \<Rightarrow> JStr s)"

definition opt_int :: "int option \<Rightarrow> json" where
  "opt_int x = (case x of None \<Rightarrow> JNull | Some i \<Rightarrow> JInt i)"

definition opt_float :: "rat option \<Rightarrow> json" where
  "opt_float x = (case x of None \<Rightarrow> JNull | Some q \<Rightarrow> JFloat q)"

text \<open>\<^verbatim>\<open>value[:100]\<close>: a string and a list can be sliced; \<^verbatim>\<open>None\<close>, a bool and a number
  raise \<^verbatim>\<open>TypeError\<close> (not subscriptable), and so does a dict (a slice is no key of it;
  the exception is a \<^verbatim>\<open>KeyError\<close> from Python 3.12 on).\<close>

fun slice_100 :: "json \<Rightarrow> error + json" where
  "slice_100 (JStr s) = Inr (JStr (take 100 s))"
| "slice_100 (JArr xs) = Inr (JArr (take 100 xs))"
| "slice_100 _ = Inl TypeError"

text \<open>\<^verbatim>\<open>arguments.get("command", "")[:100] if "command" in arguments else None\<close>.\<close>

definition command_preview :: "(string \<times> json) list \<Rightarrow> error + json" where
  "command_preview arguments =
     (case dict_lookup arguments ''command'' of
        None \<Rightarrow> Inr JNull
      | Some v \<Rightarrow> slice_100 v)"

text \<open>The dict literal \<^verbatim>\<open>entry\<close> of \<^verbatim>\<open>log_tool_call\<close>; it is built outside any \<^verbatim>\<open>try\<close>,
  so an exception of the preview leaves \<^verbatim>\<open>log_tool_call\<close>. The parameter \<^verbatim>\<open>result\<close> is
  not used by the source.\<close>

definition log_tool_call_entry ::
  "string \<Rightarrow> string \<Rightarrow> (string \<times> json) list \<Rightarrow> string option \<Rightarrow> string option \<Rightarrow>
   string option \<Rightarrow> string option \<Rightarrow> int option \<Rightarrow> error + (string \<times> json) list" where
  "log_tool_call_entry mcp_name tool_name arguments connection_name conversation_id
     result error duration_ms =
     (case command_preview arguments of
        Inl e \<Rightarrow> Inl e
      | Inr preview \<Rightarrow>
          Inr [(''type'', JStr ''tool_call''),
               (''mcp'', JStr mcp_name),
               (''tool'', JStr tool_name),
               (''connection'', opt_str connection_name),
               (''conversation_id'', opt_str conversation_id),
               (''arguments'', JObj (filter (\<lambda>kv. fst kv \<noteq> ''command'') arguments)),
               (''command_preview'', preview),
               (''duration_ms'', opt_int duration_ms),
               (''success'', JBool (error = None)),
               (''error'', opt_str error)])"

definition log_tool_call ::
  "(json \<Rightarrow> string option) \<Rightarrow> bool \<Rightarrow> string \<Rightarrow> log_state \<Rightarrow>
   string \<Rightarrow> string \<Rightarrow> (string \<times> json) list \<Rightarrow> string option \<Rightarrow> string option \<Rightarrow>
   string option \<Rightarrow> string option \<Rightarrow> int option \<Rightarrow> error + log_state" where
  "log_tool_call dumps can_append now st mcp_name tool_name arguments connection_name
     conversation_id result error duration_ms =
     (case log_tool_call_entry mcp_name tool_name arguments connection_name conversation_id
             result error duration_ms of
        Inl e \<Rightarrow> Inl e
      | Inr entry \<Rightarrow> Inr (write_log dumps can_append now st entry))"

text \<open>The dict literal \<^verbatim>\<open>entry\<close> of \<^verbatim>\<open>log_session_event\<close>; \<^verbatim>\<open>details or {}\<close> is the empty
  dict when no details are given.\<close>

definition log_session_event_entry ::
  "string \<Rightarrow> string \<Rightarrow> string \<Rightarrow> string option \<Rightarrow> (string \<times> json) list option \<Rightarrow>
   rat option \<Rightarrow> (string \<times> json) list" where
  "log_session_event_entry event tenant modul conversation_id details duration_seconds =
     [(''type'', JStr ''session_event''),
      (''event'', JStr event),
      (''tenant'', JStr tenant),
      (''module'', JStr modul),
      (''conversation_id'', opt_str conversation_id),
      (''details'', JObj (case details of None \<Rightarrow> [] | Some d \<Rightarrow> d)),
      (''duration_seconds'', opt_float duration_seconds)]"

definition log_session_event ::
  "(json \<Rightarrow> string option) \<Rightarrow> bool \<Rightarrow> string \<Rightarrow> log_state \<Rightarrow>
   string \<Rightarrow> string \<Rightarrow> string \<Rightarrow> string option \<Rightarrow> (string \<times> json) list option \<Rightarrow>
   rat option \<Rightarrow> log_state" where
  "log_session_event dumps can_append now st event tenant modul conversation_id details
     duration_seconds =
     write_log dumps can_append now st
       (log_session_event_entry event tenant modul conversation_id details duration_seconds)"

text \<open>The record that \<^verbatim>\<open>log_session_event\<close> hands to \<^verbatim>\<open>json.dumps\<close> when neither details
  nor a duration are given: the entry with its time stamp.\<close>

definition session_record :: "string \<Rightarrow> string \<Rightarrow> string \<Rightarrow> string \<Rightarrow> string option \<Rightarrow> json" where
  "session_record now event tenant modul conversation_id =
     JObj (stamp now (log_session_event_entry event tenant modul conversation_id None None))"

section \<open>Reading the session history\<close>

text \<open>\<^verbatim>\<open>if flt and entry.get(field) != flt: continue\<close> for a filter of type
  \<^verbatim>\<open>Optional[str]\<close>. The result says whether the entry is skipped; \<^verbatim>\<open>entry.get\<close> is
  only evaluated when the filter is truthy.\<close>

definition filter_skips :: "string option \<Rightarrow> json \<Rightarrow> string \<Rightarrow> error + bool" where
  "filter_skips flt entry field =
     (case flt of
        None \<Rightarrow> Inr False
      | Some s \<Rightarrow>
          if s = [] then Inr False
          else (case entry_get entry field of
                  Inl e \<Rightarrow> Inl e
                | Inr v \<Rightarrow> Inr (v \<noteq> JStr s)))"

text \<open>The four tests of the loop body, in the order of the source. \<open>Inr True\<close>: the
  entry is appended; \<open>Inr False\<close>: \<^verbatim>\<open>continue\<close>; \<open>Inl e\<close>: an exception other than
  \<^verbatim>\<open>JSONDecodeError\<close> leaves the loop.\<close>

definition keep_entry ::
  "string option \<Rightarrow> string option \<Rightarrow> string option \<Rightarrow> string option \<Rightarrow> json \<Rightarrow> error + bool" where
  "keep_entry tenant modul conversation_id event entry =
     (case filter_skips tenant entry ''tenant'' of
        Inl e \<Rightarrow> Inl e
      | Inr True \<Rightarrow> Inr False
      | Inr False \<Rightarrow>
     (case filter_skips modul entry ''module'' of
        Inl e \<Rightarrow> Inl e
      | Inr True \<Rightarrow> Inr False
      | Inr False \<Rightarrow>
     (case filter_skips conversation_id entry ''conversation_id'' of
        Inl e \<Rightarrow> Inl e
      | Inr True \<Rightarrow> Inr False
      | Inr False \<Rightarrow>
     (case filter_skips event entry ''event'' of
        Inl e \<Rightarrow> Inl e
      | Inr True \<Rightarrow> Inr False
      | Inr False \<Rightarrow> Inr True))))"

text \<open>The loop over the lines of the file, with the list \<^verbatim>\<open>results\<close> collected so far.
  An exception that leaves the loop (of \<^verbatim>\<open>entry.get\<close>, or of a step that raises) is caught
  by the outer \<^verbatim>\<open>except Exception: pass\<close>, after which the function goes on with
  \<^verbatim>\<open>results\<close> as it stands.\<close>

fun history_loop ::
  "string option \<Rightarrow> string option \<Rightarrow> string option \<Rightarrow> string option \<Rightarrow>
   line list \<Rightarrow> json list \<Rightarrow> json list" where
  "history_loop t m c ev [] results = results"
| "history_loop t m c ev (Blank # ls) results = history_loop t m c ev ls results"
| "history_loop t m c ev (Malformed # ls) results = history_loop t m c ev ls results"
| "history_loop t m c ev (Raises # ls) results = results"
| "history_loop t m c ev (Parsed entry # ls) results =
     (case keep_entry t m c ev entry of
        Inl e \<Rightarrow> results
      | Inr True \<Rightarrow> history_loop t m c ev ls (results @ [entry])
      | Inr False \<Rightarrow> history_loop t m c ev ls results)"

text \<open>\<^verbatim>\<open>results[-limit:]\<close>: the start index \<open>-limit\<close> counts from the end when it is
  negative and is clamped to the list.\<close>

definition slice_from :: "'a list \<Rightarrow> int \<Rightarrow> 'a list" where
  "slice_from xs start =
     (let n = int (length xs)
      in drop (nat (if start < 0 then max (start + n) 0 else min start n)) xs)"

text \<open>The session log is \<open>None\<close> when the file does not exist; otherwise it is the
  sequence of steps of the loop over its lines.\<close>

definition get_session_history ::
  "line list option \<Rightarrow> string option \<Rightarrow> string option \<Rightarrow> string option \<Rightarrow> string option \<Rightarrow>
   int \<Rightarrow> json list" where
  "get_session_history file tenant modul conversation_id event limit =
     (case file of
        None \<Rightarrow> []
      | Some lines \<Rightarrow>
          slice_from (history_loop tenant modul conversation_id event lines []) (- limit))"

section \<open>Finding orphaned sessions\<close>

text \<open>The keys of the dict \<^verbatim>\<open>sessions\<close> are tuples \<^verbatim>\<open>(tenant, module)\<close> of parsed values.
  Python compares dict keys with \<^verbatim>\<open>==\<close>, under which \<^verbatim>\<open>True\<close>, \<^verbatim>\<open>1\<close> and \<^verbatim>\<open>1.0\<close> are the
  same key; \<open>pykey\<close> is a hashable value up to that equality. Lists and dicts are not
  hashable: using one in a key raises \<^verbatim>\<open>TypeError\<close>.\<close>

datatype pykey = KNone | KNum rat | KStr string

fun hash_key :: "json \<Rightarrow> error + pykey" where
  "hash_key JNull = Inr KNone"
| "hash_key (JBool b) = Inr (KNum (if b then 1 else 0))"
| "hash_key (JInt i) = Inr (KNum (of_int i))"
| "hash_key (JFloat q) = Inr (KNum q)"
| "hash_key (JStr s) = Inr (KStr s)"
| "hash_key (JArr xs) = Inl TypeError"
| "hash_key (JObj kvs) = Inl TypeError"

type_synonym sessions = "((pykey \<times> pykey) \<times> json) list"

text \<open>The first loop: \<^verbatim>\<open>key = (entry.get("tenant"), entry.get("module"))\<close> and
  \<^verbatim>\<open>sessions[key] = entry\<close> for every line that parses. An exception other than
  \<^verbatim>\<open>JSONDecodeError\<close> leaves the loop, and the dict with it.\<close>

fun scan_sessions :: "line list \<Rightarrow> sessions \<Rightarrow> error + sessions" where
  "scan_sessions [] sessions = Inr sessions"
| "scan_sessions (Blank # ls) sessions = scan_sessions ls sessions"
| "scan_sessions (Malformed # ls) sessions = scan_sessions ls sessions"
| "scan_sessions (Raises # ls) sessions = Inl OtherException"
| "scan_sessions (Parsed entry # ls) sessions =
     (case entry_get entry ''tenant'' of
        Inl e \<Rightarrow> Inl e
      | Inr tenant \<Rightarrow>
     (case entry_get entry ''module'' of
        Inl e \<Rightarrow> Inl e
      | Inr modul \<Rightarrow>
     (case hash_key tenant of
        Inl e \<Rightarrow> Inl e
      | Inr kt \<Rightarrow>
     (case hash_key modul of
        Inl e \<Rightarrow> Inl e
      | Inr km \<Rightarrow> scan_sessions ls (dict_set sessions (kt, km) entry)))))"

text \<open>\<^verbatim>\<open>entry.get("event") in ("session_killed", "session_disconnected")\<close>.\<close>

definition is_terminal :: "json \<Rightarrow> bool" where
  "is_terminal ev = (ev = JStr ''session_killed'' \<or> ev = JStr ''session_disconnected'')"

text \<open>\<^verbatim>\<open>conv_id in active_conversations\<close>, for a list of conversation ids (strings).\<close>

definition in_active :: "json \<Rightarrow> string list \<Rightarrow> bool" where
  "in_active conv_id active_conversations = (conv_id \<in> JStr ` set active_conversations)"

text \<open>The second loop, over \<^verbatim>\<open>sessions.items()\<close>, with the list \<^verbatim>\<open>results\<close> so far; an
  exception ends it with \<^verbatim>\<open>results\<close> as it stands.\<close>

fun orphan_loop :: "sessions \<Rightarrow> string list \<Rightarrow> json list \<Rightarrow> json list" where
  "orphan_loop [] active results = results"
| "orphan_loop ((key, entry) # items) active results =
     (case entry_get entry ''event'' of
        Inl e \<Rightarrow> results
      | Inr ev \<Rightarrow>
          if is_terminal ev then orphan_loop items active results
          else (case entry_get entry ''conversation_id'' of
                  Inl e \<Rightarrow> results
                | Inr conv_id \<Rightarrow>
                    if truthy conv_id \<and> \<not> in_active conv_id active
                    then orphan_loop items active (results @ [entry])
                    else orphan_loop items active results))"

definition get_orphan_sessions :: "line list option \<Rightarrow> string list \<Rightarrow> json list" where
  "get_orphan_sessions file active_conversations =
     (case file of
        None \<Rightarrow> []
      | Some lines \<Rightarrow>
          (case scan_sessions lines [] of
             Inl e \<Rightarrow> []
           | Inr sessions \<Rightarrow> orphan_loop sessions active_conversations []))"

section \<open>Vocabulary of the statements\<close>

text \<open>The values of the lines that parse, in file order.\<close>

fun parsed :: "line list \<Rightarrow> json list" where
  "parsed [] = []"
| "parsed (Parsed v # ls) = v # parsed ls"
| "parsed (Blank # ls) = parsed ls"
| "parsed (Malformed # ls) = parsed ls"
| "parsed (Raises # ls) = parsed ls"

fun is_object :: "json \<Rightarrow> bool" where
  "is_object (JObj kvs) = True"
| "is_object _ = False"

text \<open>The field of a record: the binding of the key in a JSON object, none elsewhere.\<close>

fun record_field :: "json \<Rightarrow> string \<Rightarrow> json option" where
  "record_field (JObj kvs) k = dict_lookup kvs k"
| "record_field _ k = None"

text \<open>No step of the loop raises, and every line that parses is a JSON object.\<close>

definition all_objects :: "line list \<Rightarrow> bool" where
  "all_objects ls = (Raises \<notin> set ls \<and> list_all is_object (parsed ls))"

text \<open>A filter is in force when it is given and is not the empty string.\<close>

definition in_force :: "string option \<Rightarrow> bool" where
  "in_force flt = (flt \<noteq> None \<and> flt \<noteq> Some [])"

text \<open>The filter conjunction in the words of the specification: every filter that is
  supplied equals the record's field, a filter that is not supplied is no constraint.\<close>

definition spec_field_matches :: "string option \<Rightarrow> json \<Rightarrow> string \<Rightarrow> bool" where
  "spec_field_matches flt r k =
     (case flt of None \<Rightarrow> True | Some s \<Rightarrow> record_field r k = Some (JStr s))"

definition spec_matches ::
  "string option \<Rightarrow> string option \<Rightarrow> string option \<Rightarrow> string option \<Rightarrow> json \<Rightarrow> bool" where
  "spec_matches t m c ev r =
     (spec_field_matches t r ''tenant'' \<and> spec_field_matches m r ''module'' \<and>
      spec_field_matches c r ''conversation_id'' \<and> spec_field_matches ev r ''event'')"

text \<open>The same conjunction with the empty string counted as a filter left out.\<close>

definition field_matches :: "string option \<Rightarrow> json \<Rightarrow> string \<Rightarrow> bool" where
  "field_matches flt r k =
     (case flt of None \<Rightarrow> True | Some s \<Rightarrow> s = [] \<or> record_field r k = Some (JStr s))"

definition matches ::
  "string option \<Rightarrow> string option \<Rightarrow> string option \<Rightarrow> string option \<Rightarrow> json \<Rightarrow> bool" where
  "matches t m c ev r =
     (field_matches t r ''tenant'' \<and> field_matches m r ''module'' \<and>
      field_matches c r ''conversation_id'' \<and> field_matches ev r ''event'')"

text \<open>The session key \<^verbatim>\<open>(tenant, module)\<close> of a record, for a record that has one: a JSON
  object whose two values are hashable.\<close>

definition session_key :: "json \<Rightarrow> (pykey \<times> pykey) option" where
  "session_key r =
     (case entry_get r ''tenant'' of
        Inl e \<Rightarrow> None
      | Inr tenant \<Rightarrow>
     (case entry_get r ''module'' of
        Inl e \<Rightarrow> None
      | Inr modul \<Rightarrow>
     (case hash_key tenant of
        Inl e \<Rightarrow> None
      | Inr kt \<Rightarrow>
     (case hash_key modul of
        Inl e \<Rightarrow> None
      | Inr km \<Rightarrow> Some (kt, km)))))"

text \<open>No step of the loop raises, and every line that parses has a session key.\<close>

definition all_keyed :: "line list \<Rightarrow> bool" where
  "all_keyed ls = (Raises \<notin> set ls \<and> list_all (\<lambda>r. session_key r \<noteq> None) (parsed ls))"

text \<open>The last record of the file that parses and has the key \<open>k\<close>.\<close>

definition spec_last_entry :: "line list \<Rightarrow> pykey \<times> pykey \<Rightarrow> json option" where
  "spec_last_entry ls k =
     (case filter (\<lambda>r. session_key r = Some k) (parsed ls) of
        [] \<Rightarrow> None
      | r # rs \<Rightarrow> Some (last (r # rs)))"

text \<open>A record is flagged when its event is not terminal and its conversation id is a
  truthy value (so neither missing, \<^verbatim>\<open>null\<close> nor the empty string) that is not among the
  active ids.\<close>

definition flagged :: "string list \<Rightarrow> json \<Rightarrow> bool" where
  "flagged active r =
     (record_field r ''event'' \<noteq> Some (JStr ''session_killed'') \<and>
      record_field r ''event'' \<noteq> Some (JStr ''session_disconnected'') \<and>
      (case record_field r ''conversation_id'' of
         None \<Rightarrow> False
       | Some v \<Rightarrow> truthy v \<and> v \<notin> JStr ` set active))"

section \<open>Dicts\<close>

text \<open>The equations that unfold a record written by \<^verbatim>\<open>log_session_event\<close>.\<close>

lemmas record_defs = session_record_def stamp_def log_session_event_entry_def opt_str_def
  opt_float_def opt_int_def

lemma dict_lookup_map_of: "dict_lookup kvs k = map_of kvs k"
  by (induction kvs) auto

lemma dict_lookup_set: "dict_lookup (dict_set m k v) k' = (if k' = k then Some v else dict_lookup m k')"
  by (induction m) auto

lemma fst_dict_set: "set (map fst (dict_set m k v)) = insert k (set (map fst m))"
proof (induction m)
  case Nil
  show ?case by simp
next
  case (Cons p m)
  obtain k' v' where p: "p = (k', v')" by (cases p)
  show ?case
  proof (cases "k' = k")
    case True
    then show ?thesis by (auto simp: p)
  next
    case False
    with Cons show ?thesis by (auto simp: p)
  qed
qed

lemma distinct_dict_set: "distinct (map fst m) \<Longrightarrow> distinct (map fst (dict_set m k v))"
proof (induction m)
  case Nil
  show ?case by simp
next
  case (Cons p m)
  obtain k' v' where p: "p = (k', v')" by (cases p)
  from Cons have "distinct (map fst (dict_set m k v))" by simp
  moreover have "set (map fst (dict_set m k v)) = insert k (set (map fst m))"
    by (rule fst_dict_set)
  ultimately show ?case using Cons.prems by (auto simp: p)
qed

lemma set_dict_set: "set (dict_set m k v) \<subseteq> insert (k, v) (set m)"
proof (induction m)
  case Nil
  show ?case by simp
next
  case (Cons p m)
  obtain k' v' where p: "p = (k', v')" by (cases p)
  show ?case
  proof (cases "k' = k")
    case True
    then show ?thesis by (auto simp: p)
  next
    case False
    with Cons show ?thesis by (auto simp: p)
  qed
qed

lemma dict_lookup_filter_other:
  "dict_lookup (filter (\<lambda>kv. fst kv \<noteq> k) kvs) k = None"
  by (induction kvs) auto

section \<open>The history loop\<close>

lemma filter_skips_empty: "filter_skips (Some []) entry field = filter_skips None entry field"
  by (simp add: filter_skips_def)

lemma keep_entry_empty_tenant: "keep_entry (Some []) m c ev entry = keep_entry None m c ev entry"
  by (simp add: keep_entry_def filter_skips_empty cong: sum.case_cong bool.case_cong)

lemma keep_entry_empty_module: "keep_entry t (Some []) c ev entry = keep_entry t None c ev entry"
  by (simp add: keep_entry_def filter_skips_empty cong: sum.case_cong bool.case_cong)

lemma keep_entry_empty_conversation:
  "keep_entry t m (Some []) ev entry = keep_entry t m None ev entry"
  by (simp add: keep_entry_def filter_skips_empty cong: sum.case_cong bool.case_cong)

lemma keep_entry_empty_event: "keep_entry t m c (Some []) entry = keep_entry t m c None entry"
  by (simp add: keep_entry_def filter_skips_empty cong: sum.case_cong bool.case_cong)

lemma history_loop_cong:
  "(\<And>entry. keep_entry t m c ev entry = keep_entry t' m' c' ev' entry) \<Longrightarrow>
   history_loop t m c ev ls rs = history_loop t' m' c' ev' ls rs"
proof (induction ls arbitrary: rs)
  case Nil
  show ?case by simp
next
  case (Cons l ls)
  show ?case
  proof (cases l)
    case Blank
    with Cons show ?thesis by simp
  next
    case Malformed
    with Cons show ?thesis by simp
  next
    case Raises
    then show ?thesis by simp
  next
    case (Parsed entry)
    with Cons show ?thesis by (simp split: sum.splits bool.splits)
  qed
qed

lemma history_loop_acc:
  "history_loop t m c ev ls rs = rs @ history_loop t m c ev ls []"
proof (induction ls arbitrary: rs)
  case Nil
  show ?case by simp
next
  case (Cons l ls)
  show ?case
  proof (cases l)
    case Blank
    with Cons [of rs] show ?thesis by simp
  next
    case Malformed
    with Cons [of rs] show ?thesis by simp
  next
    case Raises
    then show ?thesis by simp
  next
    case (Parsed entry)
    show ?thesis
    proof (cases "keep_entry t m c ev entry")
      case (Inl e)
      with Parsed show ?thesis by simp
    next
      case (Inr b)
      show ?thesis
      proof (cases b)
        case True
        have "history_loop t m c ev ls (rs @ [entry]) = (rs @ [entry]) @ history_loop t m c ev ls []"
          by (rule Cons)
        moreover have "history_loop t m c ev ls [entry] = [entry] @ history_loop t m c ev ls []"
          by (rule Cons)
        ultimately show ?thesis using Parsed Inr True by simp
      next
        case False
        with Parsed Inr Cons [of rs] show ?thesis by simp
      qed
    qed
  qed
qed

lemma history_loop_skip_malformed:
  "history_loop t m c ev (xs @ Malformed # ys) rs = history_loop t m c ev (xs @ ys) rs"
proof (induction xs arbitrary: rs)
  case Nil
  show ?case by simp
next
  case (Cons l ls)
  then show ?case
    by (cases l) (simp_all split: sum.splits bool.splits)
qed

lemma history_loop_stop:
  "keep_entry t m c ev v = Inl e \<Longrightarrow>
   history_loop t m c ev (xs @ Parsed v # ys) rs = history_loop t m c ev xs rs"
proof (induction xs arbitrary: rs)
  case Nil
  then show ?case by simp
next
  case (Cons l ls)
  then show ?case
    by (cases l) (simp_all split: sum.splits bool.splits)
qed

lemma filter_skips_object:
  "filter_skips flt (JObj kvs) k = Inr (\<not> field_matches flt (JObj kvs) k)"
  by (auto simp: filter_skips_def field_matches_def split: option.splits)

lemma keep_entry_object: "keep_entry t m c ev (JObj kvs) = Inr (matches t m c ev (JObj kvs))"
  by (simp add: keep_entry_def filter_skips_object matches_def split: bool.splits)

lemma filter_skips_not_in_force: "\<not> in_force flt \<Longrightarrow> filter_skips flt v k = Inr False"
  by (auto simp: filter_skips_def in_force_def split: option.splits)

lemma filter_skips_non_object:
  "\<not> is_object v \<Longrightarrow> in_force flt \<Longrightarrow> filter_skips flt v k = Inl AttributeError"
  by (cases v) (auto simp: filter_skips_def in_force_def split: option.splits)

lemma keep_entry_non_object:
  assumes "\<not> is_object v" and "in_force t \<or> in_force m \<or> in_force c \<or> in_force ev"
  shows "keep_entry t m c ev v = Inl AttributeError"
proof -
  have "filter_skips f v k = (if in_force f then Inl AttributeError else Inr False)" for f k
    using filter_skips_non_object [OF assms(1)] filter_skips_not_in_force by simp
  then show ?thesis using assms(2)
    by (auto simp: keep_entry_def)
qed

lemma keep_entry_no_filter:
  "\<not> in_force t \<Longrightarrow> \<not> in_force m \<Longrightarrow> \<not> in_force c \<Longrightarrow> \<not> in_force ev \<Longrightarrow>
   keep_entry t m c ev v = Inr True"
  by (simp add: keep_entry_def filter_skips_not_in_force)

lemma history_loop_objects:
  "all_objects ls \<Longrightarrow> history_loop t m c ev ls [] = filter (matches t m c ev) (parsed ls)"
proof (induction ls)
  case Nil
  show ?case by simp
next
  case (Cons l ls)
  show ?case
  proof (cases l)
    case Blank
    with Cons show ?thesis by (simp add: all_objects_def)
  next
    case Malformed
    with Cons show ?thesis by (simp add: all_objects_def)
  next
    case Raises
    with Cons.prems show ?thesis by (simp add: all_objects_def)
  next
    case (Parsed entry)
    with Cons.prems obtain kvs where e: "entry = JObj kvs"
      by (cases entry) (simp_all add: all_objects_def)
    from Cons Parsed have "history_loop t m c ev ls [] = filter (matches t m c ev) (parsed ls)"
      by (simp add: all_objects_def)
    then show ?thesis
      using history_loop_acc [of t m c ev ls "[entry]"]
      by (simp add: Parsed e keep_entry_object)
  qed
qed

lemma history_loop_no_filter:
  assumes "\<not> in_force t" "\<not> in_force m" "\<not> in_force c" "\<not> in_force ev"
  shows "Raises \<notin> set ls \<Longrightarrow> history_loop t m c ev ls rs = rs @ parsed ls"
proof (induction ls arbitrary: rs)
  case Nil
  show ?case by simp
next
  case (Cons l ls)
  then show ?case
    by (cases l) (simp_all add: keep_entry_no_filter [OF assms])
qed

lemma slice_from_last:
  "0 < k \<Longrightarrow> slice_from xs (- k) = drop (length xs - nat k) xs"
  by (auto simp: slice_from_def Let_def max_def nat_diff_distrib' intro: arg_cong [where f = "\<lambda>n. drop n xs"])

lemma slice_from_long: "int (length xs) \<le> k \<Longrightarrow> slice_from xs (- k) = xs"
  by (auto simp: slice_from_def Let_def max_def)

section \<open>The scan of the orphan detector\<close>

lemma scan_sessions_keyed:
  "session_key e = Some k \<Longrightarrow>
   scan_sessions (Parsed e # ls) m = scan_sessions ls (dict_set m k e)"
  by (auto simp: session_key_def split: sum.splits)

lemma scan_sessions_unkeyed:
  "session_key e = None \<Longrightarrow> \<exists>err. scan_sessions (Parsed e # ls) m = Inl err"
  by (auto simp: session_key_def split: sum.splits)

lemma scan_sessions_stop:
  "session_key e = None \<Longrightarrow> \<exists>err. scan_sessions (xs @ Parsed e # ys) m = Inl err"
proof (induction xs arbitrary: m)
  case Nil
  then show ?case using scan_sessions_unkeyed by simp
next
  case (Cons l xs)
  show ?case
  proof (cases l)
    case Blank
    with Cons show ?thesis by simp
  next
    case Malformed
    with Cons show ?thesis by simp
  next
    case Raises
    then show ?thesis by simp
  next
    case (Parsed r)
    show ?thesis
    proof (cases "session_key r")
      case None
      then show ?thesis using scan_sessions_unkeyed [of r] Parsed by simp
    next
      case (Some k)
      then show ?thesis using scan_sessions_keyed [of r k] Parsed Cons by simp
    qed
  qed
qed

lemma scan_sessions_skip_malformed:
  "scan_sessions (xs @ Malformed # ys) m = scan_sessions (xs @ ys) m"
proof (induction xs arbitrary: m)
  case Nil
  show ?case by simp
next
  case (Cons l xs)
  then show ?case by (cases l) (simp_all split: sum.splits)
qed

lemma scan_sessions_fails: "\<not> all_keyed ls \<Longrightarrow> \<exists>err. scan_sessions ls m = Inl err"
proof (induction ls arbitrary: m)
  case Nil
  then show ?case by (simp add: all_keyed_def)
next
  case (Cons l ls)
  show ?case
  proof (cases l)
    case Blank
    with Cons.prems have "\<not> all_keyed ls" by (simp add: all_keyed_def)
    with Cons.IH Blank show ?thesis by simp
  next
    case Malformed
    with Cons.prems have "\<not> all_keyed ls" by (simp add: all_keyed_def)
    with Cons.IH Malformed show ?thesis by simp
  next
    case Raises
    then show ?thesis by simp
  next
    case (Parsed e)
    show ?thesis
    proof (cases "session_key e")
      case None
      then show ?thesis using scan_sessions_unkeyed [of e ls m] Parsed by simp
    next
      case (Some k)
      with Cons.prems Parsed have "\<not> all_keyed ls" by (simp add: all_keyed_def)
      from Cons.IH [OF this, of "dict_set m k e"] show ?thesis
        using scan_sessions_keyed [OF Some, of ls m] Parsed by simp
    qed
  qed
qed

lemma scan_sessions_lookup:
  "all_keyed ls \<Longrightarrow>
   \<exists>m'. scan_sessions ls m = Inr m' \<and>
     (\<forall>k. dict_lookup m' k = (case spec_last_entry ls k of None \<Rightarrow> dict_lookup m k | Some r \<Rightarrow> Some r))"
proof (induction ls arbitrary: m)
  case Nil
  show ?case by (simp add: spec_last_entry_def)
next
  case (Cons l ls)
  show ?case
  proof (cases l)
    case Blank
    with Cons show ?thesis by (simp add: all_keyed_def spec_last_entry_def)
  next
    case Malformed
    with Cons show ?thesis by (simp add: all_keyed_def spec_last_entry_def)
  next
    case Raises
    with Cons.prems show ?thesis by (simp add: all_keyed_def)
  next
    case (Parsed e)
    with Cons.prems obtain k0 where k0: "session_key e = Some k0" and rest: "all_keyed ls"
      by (auto simp: all_keyed_def)
    from Cons.IH [OF rest, of "dict_set m k0 e"] obtain m' where
      m': "scan_sessions ls (dict_set m k0 e) = Inr m'"
      and look: "\<And>k. dict_lookup m' k =
        (case spec_last_entry ls k of None \<Rightarrow> dict_lookup (dict_set m k0 e) k | Some r \<Rightarrow> Some r)"
      by blast
    have "dict_lookup m' k =
      (case spec_last_entry (l # ls) k of None \<Rightarrow> dict_lookup m k | Some r \<Rightarrow> Some r)" for k
      using look [of k] k0
      by (auto simp: Parsed spec_last_entry_def dict_lookup_set split: list.splits)
    then show ?thesis using m' k0 Parsed scan_sessions_keyed [of e k0 ls m] by simp
  qed
qed

lemma session_key_object: "session_key e = Some k \<Longrightarrow> is_object e"
  by (cases e) (simp_all add: session_key_def)

lemma non_object_unkeyed: "\<not> is_object v \<Longrightarrow> session_key v = None"
  by (cases v) (simp_all add: session_key_def)

lemma scan_sessions_inv:
  "scan_sessions ls m = Inr m' \<Longrightarrow> distinct (map fst m) \<Longrightarrow>
   (\<forall>p \<in> set m. session_key (snd p) = Some (fst p)) \<Longrightarrow>
   distinct (map fst m') \<and> (\<forall>p \<in> set m'. session_key (snd p) = Some (fst p))"
proof (induction ls arbitrary: m)
  case Nil
  then show ?case by simp
next
  case (Cons l ls)
  show ?case
  proof (cases l)
    case Blank
    with Cons show ?thesis by simp
  next
    case Malformed
    with Cons show ?thesis by simp
  next
    case Raises
    with Cons.prems(1) show ?thesis by simp
  next
    case (Parsed e)
    show ?thesis
    proof (cases "session_key e")
      case None
      with Cons.prems(1) Parsed scan_sessions_unkeyed [of e ls m] show ?thesis by auto
    next
      case (Some k)
      from Cons.prems(1) have "scan_sessions (Parsed e # ls) m = Inr m'"
        unfolding Parsed .
      then have run: "scan_sessions ls (dict_set m k e) = Inr m'"
        unfolding scan_sessions_keyed [OF Some] .
      have d: "distinct (map fst (dict_set m k e))"
        using Cons.prems(2) by (rule distinct_dict_set)
      have "\<forall>p \<in> set (dict_set m k e). session_key (snd p) = Some (fst p)"
        using set_dict_set [of m k e] Cons.prems(3) Some by auto
      with Cons.IH [OF run d] show ?thesis by blast
    qed
  qed
qed

lemma orphan_loop_step:
  "orphan_loop ((k, JObj kvs) # items) active rs =
   orphan_loop items active (if flagged active (JObj kvs) then rs @ [JObj kvs] else rs)"
  by (auto simp: flagged_def is_terminal_def in_active_def split: option.splits)

lemma orphan_loop_objects:
  "\<forall>p \<in> set m. is_object (snd p) \<Longrightarrow>
   orphan_loop m active rs = rs @ filter (flagged active) (map snd m)"
proof (induction m arbitrary: rs)
  case Nil
  show ?case by simp
next
  case (Cons p m)
  obtain k e where p: "p = (k, e)" by (cases p)
  with Cons.prems obtain kvs where e: "e = JObj kvs" by (cases e) auto
  from Cons.prems have rest: "\<forall>p \<in> set m. is_object (snd p)" by simp
  show ?case
    unfolding p e orphan_loop_step
    by (simp add: Cons.IH [OF rest])
qed

lemma get_orphan_sessions_keyed:
  assumes "all_keyed ls"
  shows "set (get_orphan_sessions (Some ls) active) =
         {r. (\<exists>k. spec_last_entry ls k = Some r) \<and> flagged active r}"
proof -
  from scan_sessions_lookup [OF assms, of "[]"] obtain m where
    run: "scan_sessions ls [] = Inr m"
    and look0: "\<forall>k. dict_lookup m k =
      (case spec_last_entry ls k of None \<Rightarrow> dict_lookup [] k | Some r \<Rightarrow> Some r)"
    by blast
  have look: "dict_lookup m k = spec_last_entry ls k" for k
    using spec [OF look0, of k] by (cases "spec_last_entry ls k") simp_all
  from scan_sessions_inv [OF run] have d: "distinct (map fst m)"
    and keyed: "\<forall>p \<in> set m. session_key (snd p) = Some (fst p)" by simp_all
  from keyed have objs: "\<forall>p \<in> set m. is_object (snd p)"
    using session_key_object by blast
  have mem: "((k, r) \<in> set m) = (spec_last_entry ls k = Some r)" for k r
    using map_of_eq_Some_iff [OF d, of k r] look [of k] by (simp add: dict_lookup_map_of)
  have "set (map snd m) = {r. \<exists>k. spec_last_entry ls k = Some r}"
    using mem by force
  then show ?thesis
    using run orphan_loop_objects [OF objs, of active "[]"]
    by (auto simp: get_orphan_sessions_def)
qed

lemma get_orphan_sessions_distinct:
  assumes "all_keyed ls"
  shows "distinct (get_orphan_sessions (Some ls) active)"
proof -
  from scan_sessions_lookup [OF assms, of "[]"] obtain m where
    run: "scan_sessions ls [] = Inr m" by blast
  from scan_sessions_inv [OF run] have d: "distinct (map fst m)"
    and keyed: "\<forall>p \<in> set m. session_key (snd p) = Some (fst p)" by simp_all
  from keyed have objs: "\<forall>p \<in> set m. is_object (snd p)"
    using session_key_object by blast
  have "inj_on snd (set m)"
  proof (rule inj_onI)
    fix p q assume "p \<in> set m" "q \<in> set m" "snd p = snd q"
    with keyed have "fst p = fst q" by (metis option.inject)
    with \<open>snd p = snd q\<close> show "p = q" by (simp add: prod_eq_iff)
  qed
  moreover from d have "distinct m" by (simp add: distinct_map)
  ultimately have "distinct (map snd m)" by (simp add: distinct_map)
  then show ?thesis
    using run orphan_loop_objects [OF objs, of active "[]"]
    by (simp add: get_orphan_sessions_def)
qed

lemma get_orphan_sessions_unkeyed:
  "\<not> all_keyed ls \<Longrightarrow> get_orphan_sessions (Some ls) active = []"
  using scan_sessions_fails [of ls "[]"] by (auto simp: get_orphan_sessions_def)

section \<open>The tool-call writer\<close>

lemma write_log_appends:
  "file_lines (write_log dumps can_append now st entry) \<noteq> file_lines st \<Longrightarrow>
   \<exists>written. dumps (JObj (stamp now entry)) = Some written \<and>
          file_lines (write_log dumps can_append now st entry) = file_lines st @ [written]"
  by (auto simp: write_log_def split: if_splits option.splits)

lemma log_tool_call_persisted:
  assumes "log_tool_call dumps can_append now st mcp_name tool_name arguments connection_name
             conversation_id result err duration_ms = Inr st'"
      and "file_lines st' \<noteq> file_lines st"
  shows "\<exists>entry preview written.
           command_preview arguments = Inr preview
           \<and> entry =
               [(''type'', JStr ''tool_call''),
                (''mcp'', JStr mcp_name),
                (''tool'', JStr tool_name),
                (''connection'', opt_str connection_name),
                (''conversation_id'', opt_str conversation_id),
                (''arguments'', JObj (filter (\<lambda>kv. fst kv \<noteq> ''command'') arguments)),
                (''command_preview'', preview),
                (''duration_ms'', opt_int duration_ms),
                (''success'', JBool (err = None)),
                (''error'', opt_str err),
                (''logged_at'', JStr now)]
           \<and> dumps (JObj entry) = Some written
           \<and> file_lines st' = file_lines st @ [written]"
proof -
  from assms(1) obtain preview where p: "command_preview arguments = Inr preview"
    by (auto simp: log_tool_call_def log_tool_call_entry_def split: sum.splits)
  let ?e = "[(''type'', JStr ''tool_call''),
                (''mcp'', JStr mcp_name),
                (''tool'', JStr tool_name),
                (''connection'', opt_str connection_name),
                (''conversation_id'', opt_str conversation_id),
                (''arguments'', JObj (filter (\<lambda>kv. fst kv \<noteq> ''command'') arguments)),
                (''command_preview'', preview),
                (''duration_ms'', opt_int duration_ms),
                (''success'', JBool (err = None)),
                (''error'', opt_str err)]"
  from assms(1) p have st': "st' = write_log dumps can_append now st ?e"
    by (simp add: log_tool_call_def log_tool_call_entry_def)
  from write_log_appends [of dumps can_append now st ?e] assms(2) st'
  obtain written where "dumps (JObj (stamp now ?e)) = Some written"
    "file_lines st' = file_lines st @ [written]" by auto
  with p show ?thesis by (simp add: stamp_def)
qed

text \<open>When the arguments have no \<^verbatim>\<open>command\<close>, or one that is a string or a list,
  \<^verbatim>\<open>log_tool_call\<close> returns, whatever \<^verbatim>\<open>json.dumps\<close> and the file system do.\<close>

lemma log_tool_call_returns:
  assumes "dict_lookup arguments ''command'' = None
           \<or> (\<exists>s. dict_lookup arguments ''command'' = Some (JStr s))
           \<or> (\<exists>xs. dict_lookup arguments ''command'' = Some (JArr xs))"
  shows "\<exists>st'. log_tool_call dumps can_append now st mcp_name tool_name arguments
           connection_name conversation_id result err duration_ms = Inr st'"
  using assms
  by (auto simp: log_tool_call_def log_tool_call_entry_def command_preview_def)

section \<open>Orphan detection\<close>

text \<open>
  C1. As stated, the claim fails on two inputs. A record that is the last of its key,
  is not terminal and carries the conversation id \<open>C1\<close> is not returned when a later
  line of the log parses to a value that is not a JSON object: \<^verbatim>\<open>entry.get\<close> raises, the
  outer handler catches it and the list of results is still empty. A record whose
  conversation id is the empty string is not returned either: the test is
  \<^verbatim>\<open>if conv_id and ...\<close>.
\<close>

theorem orphan_lost_after_bad_line:
  "get_orphan_sessions
     (Some [Parsed (session_record ''t1'' ''authenticated'' ''T'' ''M'' (Some ''C1'')),
            Parsed (JInt 5)]) [] = []
   \<and> spec_last_entry
       [Parsed (session_record ''t1'' ''authenticated'' ''T'' ''M'' (Some ''C1'')),
        Parsed (JInt 5)] (KStr ''T'', KStr ''M'') =
     Some (session_record ''t1'' ''authenticated'' ''T'' ''M'' (Some ''C1''))
   \<and> record_field (session_record ''t1'' ''authenticated'' ''T'' ''M'' (Some ''C1'')) ''event'' =
     Some (JStr ''authenticated'')
   \<and> record_field (session_record ''t1'' ''authenticated'' ''T'' ''M'' (Some ''C1''))
       ''conversation_id'' = Some (JStr ''C1'')
   \<and> get_orphan_sessions
     (Some [Parsed (session_record ''t1'' ''authenticated'' ''T'' ''M'' (Some ''''))]) [] = []
   \<and> spec_last_entry
       [Parsed (session_record ''t1'' ''authenticated'' ''T'' ''M'' (Some ''''))]
       (KStr ''T'', KStr ''M'') =
     Some (session_record ''t1'' ''authenticated'' ''T'' ''M'' (Some ''''))
   \<and> record_field (session_record ''t1'' ''authenticated'' ''T'' ''M'' (Some ''''))
       ''conversation_id'' = Some (JStr '''')"
  by (simp add: record_defs get_orphan_sessions_def spec_last_entry_def session_key_def
      is_terminal_def in_active_def)

text \<open>
  C1, amended. On a log in which no step raises (every line is blank, is rejected by
  \<^verbatim>\<open>json.loads\<close> with \<^verbatim>\<open>JSONDecodeError\<close>, or parses) and every line that parses is a JSON
  object with hashable \<^verbatim>\<open>tenant\<close> and \<^verbatim>\<open>module\<close> values, \<^verbatim>\<open>get_orphan_sessions\<close> returns, each
  once, exactly the records that are the last of their \<^verbatim>\<open>(tenant, module)\<close> key, whose
  event is neither \<^verbatim>\<open>session_killed\<close> nor \<^verbatim>\<open>session_disconnected\<close>, and whose conversation id
  is truthy and not among the active ids. On any other log it returns the empty list.
\<close>

theorem orphans_are_flagged_last_entries:
  "(all_keyed ls \<longrightarrow>
      set (get_orphan_sessions (Some ls) active) =
        {r. (\<exists>k. spec_last_entry ls k = Some r) \<and> flagged active r}
      \<and> distinct (get_orphan_sessions (Some ls) active))
   \<and> (\<not> all_keyed ls \<longrightarrow> get_orphan_sessions (Some ls) active = [])"
  using get_orphan_sessions_keyed [of ls active] get_orphan_sessions_distinct [of ls active]
    get_orphan_sessions_unkeyed [of ls active]
  by blast

theorem orphans_are_flagged_last_entries_witness:
  "all_keyed
     [Parsed (session_record ''t1'' ''session_start'' ''T'' ''M'' (Some ''C1'')),
      Parsed (session_record ''t2'' ''authenticated'' ''T'' ''M'' (Some ''C1''))]
   \<and> session_record ''t2'' ''authenticated'' ''T'' ''M'' (Some ''C1'') \<in> set (get_orphan_sessions
       (Some [Parsed (session_record ''t1'' ''session_start'' ''T'' ''M'' (Some ''C1'')),
              Parsed (session_record ''t2'' ''authenticated'' ''T'' ''M'' (Some ''C1''))]) [])
   \<and> session_record ''t2'' ''authenticated'' ''T'' ''M'' (Some ''C1'') \<notin> set (get_orphan_sessions
       (Some [Parsed (session_record ''t1'' ''session_start'' ''T'' ''M'' (Some ''C1'')),
              Parsed (session_record ''t2'' ''authenticated'' ''T'' ''M'' (Some ''C1''))])
       [''C1''])"
proof -
  let ?R = "session_record ''t2'' ''authenticated'' ''T'' ''M'' (Some ''C1'')"
  let ?L = "[Parsed (session_record ''t1'' ''session_start'' ''T'' ''M'' (Some ''C1'')), Parsed ?R]"
  have keyed: "all_keyed ?L"
    by (simp add: all_keyed_def session_key_def record_defs)
  have last: "spec_last_entry ?L (KStr ''T'', KStr ''M'') = Some ?R"
    by (simp add: spec_last_entry_def session_key_def record_defs)
  have yes: "flagged [] ?R"
    by (simp add: flagged_def record_defs)
  have no: "\<not> flagged [''C1''] ?R"
    by (simp add: flagged_def record_defs)
  from orphans_are_flagged_last_entries [of ?L "[]"] keyed last yes
  have "?R \<in> set (get_orphan_sessions (Some ?L) [])" by blast
  moreover from orphans_are_flagged_last_entries [of ?L "[''C1'']"] keyed no
  have "?R \<notin> set (get_orphan_sessions (Some ?L) [''C1''])" by blast
  ultimately show ?thesis using keyed by simp
qed

text \<open>
  C2. As stated, the claim fails on a log whose second line parses to the number 5:
  \<^verbatim>\<open>entry.get\<close> raises there, the scan is abandoned with its dict, and the third line, the
  last record of the key \<open>(T, M)\<close>, is never read.
\<close>

theorem scan_aborts_before_last_record:
  "scan_sessions
     [Parsed (session_record ''t1'' ''session_start'' ''T'' ''M'' (Some ''C1'')),
      Parsed (JInt 5),
      Parsed (session_record ''t3'' ''session_idle'' ''T'' ''M'' (Some ''C1''))] [] =
     Inl AttributeError
   \<and> spec_last_entry
     [Parsed (session_record ''t1'' ''session_start'' ''T'' ''M'' (Some ''C1'')),
      Parsed (JInt 5),
      Parsed (session_record ''t3'' ''session_idle'' ''T'' ''M'' (Some ''C1''))]
     (KStr ''T'', KStr ''M'') =
     Some (session_record ''t3'' ''session_idle'' ''T'' ''M'' (Some ''C1''))"
  by (simp add: record_defs spec_last_entry_def session_key_def)

text \<open>
  C2, amended. On a log in which no step raises and every line that parses is a JSON
  object with hashable \<^verbatim>\<open>tenant\<close> and \<^verbatim>\<open>module\<close> values, the scan completes and the reduction
  is last-write-wins in file order: the entry of every key in the dict is the last
  record of the file that parses and has that key, and a key without such a record has
  no entry. On any other log the scan is abandoned and leaves no dict. The witness is
  the log of the three events \<^verbatim>\<open>session_start\<close>, \<^verbatim>\<open>authenticated\<close>, \<^verbatim>\<open>session_idle\<close> under the
  key \<open>(T, M)\<close>, whose reduced state is the \<^verbatim>\<open>session_idle\<close> record.
\<close>

theorem scan_is_last_write_wins:
  "(all_keyed ls \<longrightarrow>
      (\<exists>sessions. scan_sessions ls [] = Inr sessions
         \<and> (\<forall>k. dict_lookup sessions k = spec_last_entry ls k)))
   \<and> (\<not> all_keyed ls \<longrightarrow> (\<exists>e. scan_sessions ls [] = Inl e))"
proof (intro conjI impI)
  assume "all_keyed ls"
  from scan_sessions_lookup [OF this, of "[]"] obtain sessions where
    run: "scan_sessions ls [] = Inr sessions"
    and look: "\<forall>k. dict_lookup sessions k =
      (case spec_last_entry ls k of None \<Rightarrow> dict_lookup [] k | Some r \<Rightarrow> Some r)"
    by blast
  have "dict_lookup sessions k = spec_last_entry ls k" for k
    using spec [OF look, of k] by (cases "spec_last_entry ls k") simp_all
  with run show "\<exists>sessions. scan_sessions ls [] = Inr sessions
         \<and> (\<forall>k. dict_lookup sessions k = spec_last_entry ls k)"
    by blast
next
  assume "\<not> all_keyed ls"
  then show "\<exists>e. scan_sessions ls [] = Inl e"
    by (rule scan_sessions_fails)
qed

theorem scan_is_last_write_wins_witness:
  "all_keyed
     [Parsed (session_record ''t1'' ''session_start'' ''T'' ''M'' (Some ''C1'')),
      Parsed (session_record ''t2'' ''authenticated'' ''T'' ''M'' (Some ''C1'')),
      Parsed (session_record ''t3'' ''session_idle'' ''T'' ''M'' (Some ''C1''))]
   \<and> scan_sessions
     [Parsed (session_record ''t1'' ''session_start'' ''T'' ''M'' (Some ''C1'')),
      Parsed (session_record ''t2'' ''authenticated'' ''T'' ''M'' (Some ''C1'')),
      Parsed (session_record ''t3'' ''session_idle'' ''T'' ''M'' (Some ''C1''))] [] =
     Inr [((KStr ''T'', KStr ''M''), session_record ''t3'' ''session_idle'' ''T'' ''M'' (Some ''C1''))]
   \<and> spec_last_entry
     [Parsed (session_record ''t1'' ''session_start'' ''T'' ''M'' (Some ''C1'')),
      Parsed (session_record ''t2'' ''authenticated'' ''T'' ''M'' (Some ''C1'')),
      Parsed (session_record ''t3'' ''session_idle'' ''T'' ''M'' (Some ''C1''))]
     (KStr ''T'', KStr ''M'') =
     Some (session_record ''t3'' ''session_idle'' ''T'' ''M'' (Some ''C1''))
   \<and> record_field (session_record ''t3'' ''session_idle'' ''T'' ''M'' (Some ''C1'')) ''event'' =
     Some (JStr ''session_idle'')"
proof -
  let ?L = "[Parsed (session_record ''t1'' ''session_start'' ''T'' ''M'' (Some ''C1'')),
      Parsed (session_record ''t2'' ''authenticated'' ''T'' ''M'' (Some ''C1'')),
      Parsed (session_record ''t3'' ''session_idle'' ''T'' ''M'' (Some ''C1''))]"
  let ?R = "session_record ''t3'' ''session_idle'' ''T'' ''M'' (Some ''C1'')"
  have keyed: "all_keyed ?L"
    by (simp add: all_keyed_def session_key_def record_defs)
  have run: "scan_sessions ?L [] = Inr [((KStr ''T'', KStr ''M''), ?R)]"
    by (simp add: record_defs)
  from scan_is_last_write_wins [of ?L] keyed obtain sessions where
    "scan_sessions ?L [] = Inr sessions"
    "\<forall>k. dict_lookup sessions k = spec_last_entry ?L k"
    by blast
  with run have "dict_lookup [((KStr ''T'', KStr ''M''), ?R)] (KStr ''T'', KStr ''M'') =
      spec_last_entry ?L (KStr ''T'', KStr ''M'')"
    by simp
  then have "spec_last_entry ?L (KStr ''T'', KStr ''M'') = Some ?R" by simp
  moreover have "record_field ?R ''event'' = Some (JStr ''session_idle'')"
    by (simp add: record_defs)
  ultimately show ?thesis using keyed run by simp
qed

section \<open>The history query\<close>

text \<open>
  C3. \<^verbatim>\<open>results[-limit:]\<close> is the whole list when \<^verbatim>\<open>limit\<close> is \<open>0\<close>, and the list without its
  first element when \<^verbatim>\<open>limit\<close> is \<open>-1\<close>: with two matches and \<^verbatim>\<open>limit=0\<close> the query returns
  both, not the last zero of them, and more than \<^verbatim>\<open>limit\<close> records.
\<close>

theorem limit_zero_returns_all:
  "get_session_history (Some [Parsed r1, Parsed r2]) None None None None 0 = [r1, r2]
   \<and> get_session_history (Some [Parsed r1, Parsed r2]) None None None None (- 1) = [r2]"
  by (simp add: get_session_history_def keep_entry_def filter_skips_def slice_from_def)

text \<open>For a positive limit the query returns the last \<^verbatim>\<open>limit\<close> matches in file order, and
  at most \<^verbatim>\<open>limit\<close> records.\<close>

lemma limit_positive_last_k:
  assumes "0 < limit"
  shows "get_session_history (Some ls) t m c ev limit =
           drop (length (history_loop t m c ev ls []) - nat limit) (history_loop t m c ev ls [])"
    and "int (length (get_session_history (Some ls) t m c ev limit)) \<le> limit"
  using assms by (auto simp: get_session_history_def slice_from_last)

text \<open>
  C6. As stated, the claim fails on two inputs. With the tenant filter supplied as the
  empty string the loop keeps a record of tenant \<open>T\<close>, which does not equal the filter.
  With the tenant filter \<open>T\<close> and a first line that parses to the number 5 the loop
  keeps nothing, although the second line is a record of tenant \<open>T\<close>.
\<close>

theorem empty_filter_differs_from_spec:
  "history_loop (Some '''') None None None
     [Parsed (session_record ''t1'' ''session_start'' ''T'' ''M'' (Some ''C1''))] [] =
     [session_record ''t1'' ''session_start'' ''T'' ''M'' (Some ''C1'')]
   \<and> filter (spec_matches (Some '''') None None None)
       (parsed [Parsed (session_record ''t1'' ''session_start'' ''T'' ''M'' (Some ''C1''))]) = []
   \<and> history_loop (Some ''T'') None None None
     [Parsed (JInt 5),
      Parsed (session_record ''t1'' ''session_start'' ''T'' ''M'' (Some ''C1''))] [] = []
   \<and> filter (spec_matches (Some ''T'') None None None)
       (parsed [Parsed (JInt 5),
                Parsed (session_record ''t1'' ''session_start'' ''T'' ''M'' (Some ''C1''))]) =
     [session_record ''t1'' ''session_start'' ''T'' ''M'' (Some ''C1'')]"
  by (simp add: record_defs keep_entry_def filter_skips_def spec_matches_def
      spec_field_matches_def)

text \<open>
  C6, amended. On a log in which no step raises (every line is blank, is rejected by
  \<^verbatim>\<open>json.loads\<close> with \<^verbatim>\<open>JSONDecodeError\<close>, or parses) and every line that parses is a JSON
  object, the records kept by the loop of \<^verbatim>\<open>get_session_history\<close> (before the limit is
  applied) are, in file order, exactly the parsed records whose field equals every
  filter that is given and is not the empty string; a filter that is left out or empty
  is no constraint.
\<close>

theorem history_keeps_matching_objects:
  assumes "all_objects ls"
  shows "history_loop t m c ev ls [] = filter (matches t m c ev) (parsed ls)
         \<and> set (history_loop t m c ev ls []) = {r \<in> set (parsed ls). matches t m c ev r}"
  using history_loop_objects [OF assms, of t m c ev] by simp

theorem history_keeps_matching_objects_witness:
  "all_objects
     [Parsed (session_record ''t1'' ''session_start'' ''T'' ''M'' (Some ''C1'')),
      Parsed (session_record ''t2'' ''session_start'' ''U'' ''M'' (Some ''C2'')),
      Parsed (session_record ''t3'' ''authenticated'' ''T'' ''M'' (Some ''C1''))]
   \<and> history_loop (Some ''T'') (Some '''') None (Some ''authenticated'')
     [Parsed (session_record ''t1'' ''session_start'' ''T'' ''M'' (Some ''C1'')),
      Parsed (session_record ''t2'' ''session_start'' ''U'' ''M'' (Some ''C2'')),
      Parsed (session_record ''t3'' ''authenticated'' ''T'' ''M'' (Some ''C1''))] [] =
     [session_record ''t3'' ''authenticated'' ''T'' ''M'' (Some ''C1'')]"
proof -
  have obj: "all_objects
     [Parsed (session_record ''t1'' ''session_start'' ''T'' ''M'' (Some ''C1'')),
      Parsed (session_record ''t2'' ''session_start'' ''U'' ''M'' (Some ''C2'')),
      Parsed (session_record ''t3'' ''authenticated'' ''T'' ''M'' (Some ''C1''))]"
    by (simp add: all_objects_def session_record_def)
  from history_keeps_matching_objects [OF obj, of "Some ''T''" "Some ''''" None "Some ''authenticated''"]
  show ?thesis using obj
    by (simp add: record_defs matches_def field_matches_def)
qed

text \<open>
  C7. As stated, the claim fails for a line of invalid JSON that \<^verbatim>\<open>json.loads\<close> does not
  reject with \<^verbatim>\<open>JSONDecodeError\<close>: on a line of a hundred thousand opening brackets it
  raises \<^verbatim>\<open>RecursionError\<close>, which the handler inside the loop does not catch. The scan
  ends there: \<^verbatim>\<open>get_session_history\<close> returns the first record only, and
  \<^verbatim>\<open>get_orphan_sessions\<close> returns nothing.
\<close>

theorem raising_line_ends_scan:
  "get_session_history
     (Some [Parsed (session_record ''t1'' ''session_start'' ''T'' ''M'' (Some ''C1'')),
            Raises,
            Parsed (session_record ''t2'' ''authenticated'' ''T'' ''M'' (Some ''C1''))])
     None None None None 100 =
   [session_record ''t1'' ''session_start'' ''T'' ''M'' (Some ''C1'')]
   \<and> get_orphan_sessions
     (Some [Parsed (session_record ''t1'' ''session_start'' ''T'' ''M'' (Some ''C1'')),
            Raises,
            Parsed (session_record ''t2'' ''authenticated'' ''T'' ''M'' (Some ''C1''))])
     [] = []"
  by (simp add: get_session_history_def get_orphan_sessions_def keep_entry_def filter_skips_def
      slice_from_def record_defs)

text \<open>
  C7, amended. A line that \<^verbatim>\<open>json.loads\<close> rejects with \<^verbatim>\<open>JSONDecodeError\<close> is skipped and the
  scan goes on: a log with such a line gives the same result as the log without it, in
  \<^verbatim>\<open>get_session_history\<close> and in \<^verbatim>\<open>get_orphan_sessions\<close>. A log of a record, such a line and
  a second record gives exactly the two records in \<^verbatim>\<open>get_session_history\<close> when both pass
  the filters and the limit is at least two, and \<^verbatim>\<open>get_orphan_sessions\<close> reports the second
  record when both have a session key and the second is flagged. Both functions return
  a list on every input: no exception leaves them.
\<close>

theorem malformed_line_is_skipped:
  "get_session_history (Some (pre @ Malformed # post)) t m c ev limit =
     get_session_history (Some (pre @ post)) t m c ev limit
   \<and> get_orphan_sessions (Some (pre @ Malformed # post)) active =
     get_orphan_sessions (Some (pre @ post)) active
   \<and> (is_object a \<and> is_object b \<and> matches t m c ev a \<and> matches t m c ev b \<and> 2 \<le> limit \<longrightarrow>
        get_session_history (Some [Parsed a, Malformed, Parsed b]) t m c ev limit = [a, b])
   \<and> (session_key a \<noteq> None \<and> session_key b \<noteq> None \<and> flagged active b \<longrightarrow>
        b \<in> set (get_orphan_sessions (Some [Parsed a, Malformed, Parsed b]) active))"
proof -
  have "history_loop t m c ev [Parsed a, Malformed, Parsed b] [] = [a, b]"
    if "is_object a" "is_object b" "matches t m c ev a" "matches t m c ev b"
  proof -
    from that have "all_objects [Parsed a, Malformed, Parsed b]"
      by (simp add: all_objects_def)
    from history_loop_objects [OF this, of t m c ev] that show ?thesis
      by simp
  qed
  moreover have "b \<in> set (get_orphan_sessions (Some [Parsed a, Malformed, Parsed b]) active)"
    if "session_key a \<noteq> None" "session_key b \<noteq> None" "flagged active b"
  proof -
    from that have keyed: "all_keyed [Parsed a, Malformed, Parsed b]"
      by (simp add: all_keyed_def)
    from that obtain k where "session_key b = Some k" by blast
    then have "spec_last_entry [Parsed a, Malformed, Parsed b] k = Some b"
      by (simp add: spec_last_entry_def)
    with get_orphan_sessions_keyed [OF keyed, of active] that(3) show ?thesis
      by blast
  qed
  ultimately show ?thesis
    by (simp add: get_session_history_def get_orphan_sessions_def history_loop_skip_malformed
        scan_sessions_skip_malformed slice_from_long)
qed

theorem malformed_line_is_skipped_witness:
  "get_session_history
     (Some [Parsed (session_record ''t1'' ''session_start'' ''T'' ''M'' (Some ''C1'')),
            Malformed,
            Parsed (session_record ''t2'' ''authenticated'' ''T'' ''M'' (Some ''C1''))])
     (Some ''T'') None None None 100 =
   [session_record ''t1'' ''session_start'' ''T'' ''M'' (Some ''C1''),
    session_record ''t2'' ''authenticated'' ''T'' ''M'' (Some ''C1'')]
   \<and> session_record ''t2'' ''authenticated'' ''T'' ''M'' (Some ''C1'') \<in> set (get_orphan_sessions
     (Some [Parsed (session_record ''t1'' ''session_start'' ''T'' ''M'' (Some ''C1'')),
            Malformed,
            Parsed (session_record ''t2'' ''authenticated'' ''T'' ''M'' (Some ''C1''))]) [])"
proof -
  let ?a = "session_record ''t1'' ''session_start'' ''T'' ''M'' (Some ''C1'')"
  let ?b = "session_record ''t2'' ''authenticated'' ''T'' ''M'' (Some ''C1'')"
  have obj: "is_object ?a" "is_object ?b"
    by (simp_all add: session_record_def)
  have m: "matches (Some ''T'') None None None ?a" "matches (Some ''T'') None None None ?b"
    by (simp_all add: record_defs matches_def field_matches_def)
  have k: "session_key ?a \<noteq> None" "session_key ?b \<noteq> None"
    by (simp_all add: record_defs session_key_def)
  have f: "flagged [] ?b"
    by (simp add: flagged_def record_defs)
  from malformed_line_is_skipped [of "[]" "[]" "Some ''T''" None None None 100 "[]" ?a ?b]
    obj m k f
  show ?thesis by simp
qed

text \<open>
  C9. As stated, the claim fails for \<^verbatim>\<open>get_session_history\<close> without filters: no
  \<^verbatim>\<open>entry.get\<close> is evaluated, the number 5 is appended to the results and the scan goes
  on to the next line.
\<close>

theorem non_object_line_is_kept_without_filter:
  "get_session_history
     (Some [Parsed (JInt 5),
            Parsed (session_record ''t1'' ''session_start'' ''T'' ''M'' (Some ''C1''))])
     None None None None 100 =
   [JInt 5, session_record ''t1'' ''session_start'' ''T'' ''M'' (Some ''C1'')]"
  by (simp add: get_session_history_def keep_entry_def filter_skips_def slice_from_def)

text \<open>
  C9, amended. At a line that parses to a value that is not a JSON object,
  \<^verbatim>\<open>get_session_history\<close> with at least one filter that is given and not empty stops and
  returns what the lines before it give; \<^verbatim>\<open>get_orphan_sessions\<close> stops and returns the
  empty list. Neither raises.
\<close>

theorem non_object_line_stops_scan:
  assumes "\<not> is_object v"
  shows "(in_force t \<or> in_force m \<or> in_force c \<or> in_force ev \<longrightarrow>
            get_session_history (Some (pre @ Parsed v # post)) t m c ev limit =
            get_session_history (Some pre) t m c ev limit)
         \<and> get_orphan_sessions (Some (pre @ Parsed v # post)) active = []"
proof -
  have "history_loop t m c ev (pre @ Parsed v # post) [] = history_loop t m c ev pre []"
    if "in_force t \<or> in_force m \<or> in_force c \<or> in_force ev"
    using keep_entry_non_object [OF assms that] by (rule history_loop_stop)
  moreover from scan_sessions_stop [OF non_object_unkeyed [OF assms], of pre post "[]"]
  have "get_orphan_sessions (Some (pre @ Parsed v # post)) active = []"
    by (auto simp: get_orphan_sessions_def)
  ultimately show ?thesis by (simp add: get_session_history_def)
qed

theorem non_object_line_stops_scan_witness:
  "\<not> is_object (JInt 5)
   \<and> get_session_history
       (Some [Parsed (session_record ''t1'' ''session_start'' ''T'' ''M'' (Some ''C1'')),
              Parsed (JInt 5),
              Parsed (session_record ''t2'' ''authenticated'' ''T'' ''M'' (Some ''C1''))])
       (Some ''T'') None None None 100 =
     [session_record ''t1'' ''session_start'' ''T'' ''M'' (Some ''C1'')]
   \<and> get_orphan_sessions
       (Some [Parsed (session_record ''t1'' ''session_start'' ''T'' ''M'' (Some ''C1'')),
              Parsed (JInt 5),
              Parsed (session_record ''t2'' ''authenticated'' ''T'' ''M'' (Some ''C1''))])
       [] = []"
proof -
  have n: "\<not> is_object (JInt 5)" by simp
  have "get_session_history
       (Some [Parsed (session_record ''t1'' ''session_start'' ''T'' ''M'' (Some ''C1''))])
       (Some ''T'') None None None 100 =
     [session_record ''t1'' ''session_start'' ''T'' ''M'' (Some ''C1'')]"
    by (simp add: get_session_history_def keep_entry_def filter_skips_def slice_from_def
        record_defs)
  with non_object_line_stops_scan [OF n, of "Some ''T''" None None None
      "[Parsed (session_record ''t1'' ''session_start'' ''T'' ''M'' (Some ''C1''))]"
      "[Parsed (session_record ''t2'' ''authenticated'' ''T'' ''M'' (Some ''C1''))]" 100 "[]"]
  show ?thesis by (simp add: in_force_def)
qed

text \<open>
  C10. A filter given as the empty string (the one falsy value of a \<^verbatim>\<open>str\<close>) gives the
  same result as the filter left out, for each of the four filters, on every log and
  for every limit.
\<close>

theorem empty_filter_is_no_filter:
  "get_session_history file (Some []) m c ev limit = get_session_history file None m c ev limit
   \<and> get_session_history file t (Some []) c ev limit = get_session_history file t None c ev limit
   \<and> get_session_history file t m (Some []) ev limit = get_session_history file t m None ev limit
   \<and> get_session_history file t m c (Some []) limit = get_session_history file t m c None limit"
proof -
  have "history_loop (Some []) m c ev ls [] = history_loop None m c ev ls []" for ls
    by (rule history_loop_cong) (rule keep_entry_empty_tenant)
  moreover have "history_loop t (Some []) c ev ls [] = history_loop t None c ev ls []" for ls
    by (rule history_loop_cong) (rule keep_entry_empty_module)
  moreover have "history_loop t m (Some []) ev ls [] = history_loop t m None ev ls []" for ls
    by (rule history_loop_cong) (rule keep_entry_empty_conversation)
  moreover have "history_loop t m c (Some []) ls [] = history_loop t m c None ls []" for ls
    by (rule history_loop_cong) (rule keep_entry_empty_event)
  ultimately show ?thesis
    by (simp add: get_session_history_def split: option.splits)
qed

theorem empty_filter_is_no_filter_witness:
  "get_session_history
     (Some [Parsed (session_record ''t1'' ''session_start'' ''T'' ''M'' (Some ''C1''))])
     (Some '''') None None None 100 =
   [session_record ''t1'' ''session_start'' ''T'' ''M'' (Some ''C1'')]"
proof -
  have "get_session_history
     (Some [Parsed (session_record ''t1'' ''session_start'' ''T'' ''M'' (Some ''C1''))])
     None None None None 100 =
   [session_record ''t1'' ''session_start'' ''T'' ''M'' (Some ''C1'')]"
    by (simp add: get_session_history_def keep_entry_def filter_skips_def slice_from_def)
  with empty_filter_is_no_filter
    [of "Some [Parsed (session_record ''t1'' ''session_start'' ''T'' ''M'' (Some ''C1''))]"
        None None None 100]
  show ?thesis by simp
qed

section \<open>Recording tool calls\<close>

text \<open>
  C4. \<^verbatim>\<open>log_tool_call\<close> raises \<^verbatim>\<open>TypeError\<close> when the value of \<^verbatim>\<open>command\<close> is a number: the
  slice \<^verbatim>\<open>[:100]\<close> is taken while the entry is built, outside the \<^verbatim>\<open>try\<close> of \<^verbatim>\<open>_write_log\<close>.
\<close>

theorem log_tool_call_raises_on_number_command:
  "log_tool_call dumps can_append now st mcp_name tool_name [(''command'', JInt 5)]
     connection_name conversation_id result err duration_ms = Inl TypeError"
  by (simp add: log_tool_call_def log_tool_call_entry_def command_preview_def)

text \<open>
  C5. Whenever \<^verbatim>\<open>log_tool_call\<close> appends a line, the line is the serialization of the
  entry it built, whose \<^verbatim>\<open>arguments\<close> field is the input mapping without the key
  \<^verbatim>\<open>command\<close>; the field \<^verbatim>\<open>command_preview\<close> is \<^verbatim>\<open>null\<close> when the input has no such key, and
  the first 100 characters of its value when that is a string of more than 100.
\<close>

theorem persisted_arguments_are_redacted:
  assumes "log_tool_call dumps can_append now st mcp_name tool_name arguments connection_name
             conversation_id result err duration_ms = Inr st'"
      and "file_lines st' \<noteq> file_lines st"
  shows "\<exists>entry written.
           dumps (JObj entry) = Some written
           \<and> file_lines st' = file_lines st @ [written]
           \<and> map_sum id (stamp now)
               (log_tool_call_entry mcp_name tool_name arguments connection_name
                  conversation_id result err duration_ms) = Inr entry
           \<and> dict_lookup entry ''arguments'' =
               Some (JObj (filter (\<lambda>kv. fst kv \<noteq> ''command'') arguments))
           \<and> dict_lookup (filter (\<lambda>kv. fst kv \<noteq> ''command'') arguments) ''command'' = None
           \<and> (dict_lookup arguments ''command'' = None \<longrightarrow>
                dict_lookup entry ''command_preview'' = Some JNull)
           \<and> (\<forall>s. dict_lookup arguments ''command'' = Some (JStr s) \<and> 100 < length s \<longrightarrow>
                dict_lookup entry ''command_preview'' = Some (JStr (take 100 s))
                \<and> length (take 100 s) = 100)"
proof -
  from log_tool_call_persisted [OF assms] obtain entry preview written where
    p: "command_preview arguments = Inr preview"
    and e: "entry =
               [(''type'', JStr ''tool_call''),
                (''mcp'', JStr mcp_name),
                (''tool'', JStr tool_name),
                (''connection'', opt_str connection_name),
                (''conversation_id'', opt_str conversation_id),
                (''arguments'', JObj (filter (\<lambda>kv. fst kv \<noteq> ''command'') arguments)),
                (''command_preview'', preview),
                (''duration_ms'', opt_int duration_ms),
                (''success'', JBool (err = None)),
                (''error'', opt_str err),
                (''logged_at'', JStr now)]"
    and d: "dumps (JObj entry) = Some written"
    and f: "file_lines st' = file_lines st @ [written]"
    by blast
  have built: "map_sum id (stamp now)
               (log_tool_call_entry mcp_name tool_name arguments connection_name
                  conversation_id result err duration_ms) = Inr entry"
    using p e by (simp add: log_tool_call_entry_def stamp_def)
  have args: "dict_lookup entry ''arguments'' =
               Some (JObj (filter (\<lambda>kv. fst kv \<noteq> ''command'') arguments))"
    by (simp add: e)
  have prev: "dict_lookup entry ''command_preview'' = Some preview"
    by (simp add: e)
  have absent: "dict_lookup arguments ''command'' = None \<Longrightarrow> preview = JNull"
    using p by (simp add: command_preview_def)
  have long: "dict_lookup arguments ''command'' = Some (JStr s) \<Longrightarrow> preview = JStr (take 100 s)" for s
    using p by (simp add: command_preview_def)
  show ?thesis
    using d f built args prev absent long dict_lookup_filter_other [of "''command''" arguments]
    by auto
qed

theorem persisted_arguments_are_redacted_witness:
  "log_tool_call (\<lambda>v. Some ''line'') True ''t0'' \<lparr>file_lines = [], diagnostics = []\<rparr>
     ''mm'' ''run''
     [(''connection'', JStr ''ForIT-GA''), (''command'', JStr (replicate 101 CHR ''x''))]
     (Some ''ForIT-GA'') None None None (Some 12) =
     Inr \<lparr>file_lines = [''line''], diagnostics = []\<rparr>
   \<and> (\<exists>entry.
         map_sum id (stamp ''t0'')
           (log_tool_call_entry ''mm'' ''run''
              [(''connection'', JStr ''ForIT-GA''), (''command'', JStr (replicate 101 CHR ''x''))]
              (Some ''ForIT-GA'') None None None (Some 12)) = Inr entry
         \<and> dict_lookup entry ''arguments'' = Some (JObj [(''connection'', JStr ''ForIT-GA'')])
         \<and> dict_lookup entry ''command_preview'' = Some (JStr (replicate 100 CHR ''x'')))"
proof -
  let ?args = "[(''connection'', JStr ''ForIT-GA''), (''command'', JStr (replicate 101 CHR ''x''))]"
  let ?st = "\<lparr>file_lines = [], diagnostics = []\<rparr>"
  let ?st' = "\<lparr>file_lines = [''line''], diagnostics = []\<rparr>"
  have run: "log_tool_call (\<lambda>v. Some ''line'') True ''t0'' ?st ''mm'' ''run'' ?args
     (Some ''ForIT-GA'') None None None (Some 12) = Inr ?st'"
    by (simp add: log_tool_call_def log_tool_call_entry_def command_preview_def write_log_def)
  have changed: "file_lines ?st' \<noteq> file_lines ?st" by simp
  have cmd: "dict_lookup ?args ''command'' = Some (JStr (replicate 101 CHR ''x''))" by simp
  from persisted_arguments_are_redacted [OF run changed] obtain entry where
    "map_sum id (stamp ''t0'')
       (log_tool_call_entry ''mm'' ''run'' ?args (Some ''ForIT-GA'') None None None (Some 12)) =
       Inr entry"
    "dict_lookup entry ''arguments'' = Some (JObj (filter (\<lambda>kv. fst kv \<noteq> ''command'') ?args))"
    "\<forall>s. dict_lookup ?args ''command'' = Some (JStr s) \<and> 100 < length s \<longrightarrow>
       dict_lookup entry ''command_preview'' = Some (JStr (take 100 s))
       \<and> length (take 100 s) = 100"
    by blast
  with cmd have "map_sum id (stamp ''t0'')
       (log_tool_call_entry ''mm'' ''run'' ?args (Some ''ForIT-GA'') None None None (Some 12)) =
       Inr entry
     \<and> dict_lookup entry ''arguments'' = Some (JObj [(''connection'', JStr ''ForIT-GA'')])
     \<and> dict_lookup entry ''command_preview'' = Some (JStr (replicate 100 CHR ''x''))"
    by simp
  with run show ?thesis by blast
qed

text \<open>
  C8. As stated, the claim fails: the keys of the record are \<^verbatim>\<open>mcp\<close>, \<^verbatim>\<open>tool\<close> and
  \<^verbatim>\<open>connection\<close>; it has no field \<^verbatim>\<open>mcp_name\<close>, \<^verbatim>\<open>tool_name\<close> or \<^verbatim>\<open>connection_name\<close>.
\<close>

theorem tool_call_record_has_no_mcp_name:
  "map_sum id (map fst \<circ> stamp ''t0'')
     (log_tool_call_entry ''mm'' ''run'' [] (Some ''ForIT-GA'') None None None (Some 12)) =
   Inr [''type'', ''mcp'', ''tool'', ''connection'', ''conversation_id'', ''arguments'',
        ''command_preview'', ''duration_ms'', ''success'', ''error'', ''logged_at'']
   \<and> log_tool_call (\<lambda>v. Some ''line'') True ''t0'' \<lparr>file_lines = [], diagnostics = []\<rparr>
       ''mm'' ''run'' [] (Some ''ForIT-GA'') None None None (Some 12) =
     Inr \<lparr>file_lines = [''line''], diagnostics = []\<rparr>"
  by (simp add: log_tool_call_def log_tool_call_entry_def command_preview_def write_log_def
      stamp_def)

text \<open>
  C8, amended. Every record appended by \<^verbatim>\<open>log_tool_call\<close> has exactly the fields \<^verbatim>\<open>type\<close>,
  \<^verbatim>\<open>mcp\<close>, \<^verbatim>\<open>tool\<close>, \<^verbatim>\<open>connection\<close>, \<^verbatim>\<open>conversation_id\<close>, \<^verbatim>\<open>arguments\<close>, \<^verbatim>\<open>command_preview\<close>,
  \<^verbatim>\<open>duration_ms\<close>, \<^verbatim>\<open>success\<close>, \<^verbatim>\<open>error\<close> and \<^verbatim>\<open>logged_at\<close>, with \<^verbatim>\<open>type\<close> equal to
  \<^verbatim>\<open>tool_call\<close>, the values passed in (\<^verbatim>\<open>null\<close> for one not supplied), and \<^verbatim>\<open>success\<close> true
  exactly when no error was passed.
\<close>

theorem persisted_tool_call_fields:
  assumes "log_tool_call dumps can_append now st mcp_name tool_name arguments connection_name
             conversation_id result err duration_ms = Inr st'"
      and "file_lines st' \<noteq> file_lines st"
  shows "\<exists>entry written.
           dumps (JObj entry) = Some written
           \<and> file_lines st' = file_lines st @ [written]
           \<and> map_sum id (stamp now)
               (log_tool_call_entry mcp_name tool_name arguments connection_name
                  conversation_id result err duration_ms) = Inr entry
           \<and> map fst entry =
               [''type'', ''mcp'', ''tool'', ''connection'', ''conversation_id'', ''arguments'',
                ''command_preview'', ''duration_ms'', ''success'', ''error'', ''logged_at'']
           \<and> dict_lookup entry ''type'' = Some (JStr ''tool_call'')
           \<and> dict_lookup entry ''mcp'' = Some (JStr mcp_name)
           \<and> dict_lookup entry ''tool'' = Some (JStr tool_name)
           \<and> dict_lookup entry ''connection'' = Some (opt_str connection_name)
           \<and> dict_lookup entry ''conversation_id'' = Some (opt_str conversation_id)
           \<and> dict_lookup entry ''duration_ms'' = Some (opt_int duration_ms)
           \<and> dict_lookup entry ''success'' = Some (JBool (err = None))
           \<and> dict_lookup entry ''error'' = Some (opt_str err)
           \<and> dict_lookup entry ''logged_at'' = Some (JStr now)"
proof -
  from log_tool_call_persisted [OF assms] obtain entry preview written where
    p: "command_preview arguments = Inr preview"
    and e: "entry =
               [(''type'', JStr ''tool_call''),
                (''mcp'', JStr mcp_name),
                (''tool'', JStr tool_name),
                (''connection'', opt_str connection_name),
                (''conversation_id'', opt_str conversation_id),
                (''arguments'', JObj (filter (\<lambda>kv. fst kv \<noteq> ''command'') arguments)),
                (''command_preview'', preview),
                (''duration_ms'', opt_int duration_ms),
                (''success'', JBool (err = None)),
                (''error'', opt_str err),
                (''logged_at'', JStr now)]"
    and d: "dumps (JObj entry) = Some written"
    and f: "file_lines st' = file_lines st @ [written]"
    by blast
  have built: "map_sum id (stamp now)
               (log_tool_call_entry mcp_name tool_name arguments connection_name
                  conversation_id result err duration_ms) = Inr entry"
    using p e by (simp add: log_tool_call_entry_def stamp_def)
  have keys: "map fst entry =
               [''type'', ''mcp'', ''tool'', ''connection'', ''conversation_id'', ''arguments'',
                ''command_preview'', ''duration_ms'', ''success'', ''error'', ''logged_at'']"
    by (simp add: e)
  have vals: "dict_lookup entry ''type'' = Some (JStr ''tool_call'')"
    "dict_lookup entry ''mcp'' = Some (JStr mcp_name)"
    "dict_lookup entry ''tool'' = Some (JStr tool_name)"
    "dict_lookup entry ''connection'' = Some (opt_str connection_name)"
    "dict_lookup entry ''conversation_id'' = Some (opt_str conversation_id)"
    "dict_lookup entry ''duration_ms'' = Some (opt_int duration_ms)"
    "dict_lookup entry ''success'' = Some (JBool (err = None))"
    "dict_lookup entry ''error'' = Some (opt_str err)"
    "dict_lookup entry ''logged_at'' = Some (JStr now)"
    by (simp_all add: e)
  from d f built keys vals show ?thesis
    by (intro exI [of _ entry] exI [of _ written]) simp
qed

theorem persisted_tool_call_fields_witness:
  "log_tool_call (\<lambda>v. Some ''line'') True ''t0'' \<lparr>file_lines = [], diagnostics = []\<rparr>
     ''mm'' ''run'' [] (Some ''ForIT-GA'') None None (Some ''Error: boom'') (Some 12) =
     Inr \<lparr>file_lines = [''line''], diagnostics = []\<rparr>
   \<and> (\<exists>entry.
         map_sum id (stamp ''t0'')
           (log_tool_call_entry ''mm'' ''run'' [] (Some ''ForIT-GA'') None None
              (Some ''Error: boom'') (Some 12)) = Inr entry
         \<and> dict_lookup entry ''mcp'' = Some (JStr ''mm'')
         \<and> dict_lookup entry ''connection'' = Some (JStr ''ForIT-GA'')
         \<and> dict_lookup entry ''success'' = Some (JBool False)
         \<and> dict_lookup entry ''error'' = Some (JStr ''Error: boom''))"
proof -
  let ?st = "\<lparr>file_lines = [], diagnostics = []\<rparr>"
  let ?st' = "\<lparr>file_lines = [''line''], diagnostics = []\<rparr>"
  have run: "log_tool_call (\<lambda>v. Some ''line'') True ''t0'' ?st ''mm'' ''run'' []
     (Some ''ForIT-GA'') None None (Some ''Error: boom'') (Some 12) = Inr ?st'"
    by (simp add: log_tool_call_def log_tool_call_entry_def command_preview_def write_log_def)
  have changed: "file_lines ?st' \<noteq> file_lines ?st" by simp
  from persisted_tool_call_fields [OF run changed] obtain entry where
    "map_sum id (stamp ''t0'')
       (log_tool_call_entry ''mm'' ''run'' [] (Some ''ForIT-GA'') None None
          (Some ''Error: boom'') (Some 12)) = Inr entry"
    "dict_lookup entry ''mcp'' = Some (JStr ''mm'')"
    "dict_lookup entry ''connection'' = Some (opt_str (Some ''ForIT-GA''))"
    "dict_lookup entry ''success'' = Some (JBool (Some ''Error: boom'' = None))"
    "dict_lookup entry ''error'' = Some (opt_str (Some ''Error: boom''))"
    by blast
  then have "map_sum id (stamp ''t0'')
       (log_tool_call_entry ''mm'' ''run'' [] (Some ''ForIT-GA'') None None
          (Some ''Error: boom'') (Some 12)) = Inr entry
     \<and> dict_lookup entry ''mcp'' = Some (JStr ''mm'')
     \<and> dict_lookup entry ''connection'' = Some (JStr ''ForIT-GA'')
     \<and> dict_lookup entry ''success'' = Some (JBool False)
     \<and> dict_lookup entry ''error'' = Some (JStr ''Error: boom'')"
    by (simp add: opt_str_def)
  with run show ?thesis by blast
qed

end
